theory Spec2Isabelle
  imports Complex_Main "HOL-Library.AList"
begin

section \<open>Python values\<close>

text \<open>
  The functions of \<^verbatim>\<open>utils/st_utils.py\<close> work on whatever the model provider sent:
  the values that \<^verbatim>\<open>json.loads\<close> can build. A dictionary is an association list in
  insertion order whose keys are strings (the only keys a JSON object has); lookup takes
  the first entry of a key. A float is the rational number it stands for, an infinity
  or \<^verbatim>\<open>nan\<close>. Strings are lists of 8-bit characters, read as ASCII.
\<close>

datatype pyfloat = Finite rat | Infinite bool | NaN

datatype pyval =
    PNone
  | PBool bool
  | PInt int
  | PFloat pyfloat
  | PStr string
  | PList "pyval list"
  | PDict "(string \<times> pyval) list"

text \<open>The subclasses of \<^verbatim>\<open>Exception\<close> that the modelled code can meet.\<close>

datatype exn =
    KeyError pyval
  | IndexError
  | TypeError
  | AttributeError
  | JSONDecodeError
  | ValueError
  | RecursionError

text \<open>
  The calls into Streamlit that the properties below are about, in the order they are made. A call
  that formats a value into a message carries the value, not the formatted text.
\<close>

datatype st_call =
    StErrorUnexpectedType pyval
  | StErrorJSONDecodeError exn
  | StErrorError exn
  | StWriteIntro
  | StSubheader nat pyval
  | StRadio nat pyval
  | StSuccessCorrect nat
  | StErrorWrong nat
  | StMarkdownCorrectAnswer pyval
  | StMarkdownExplanation pyval
  | StMarkdownScore int int
  | StMarkdownStyles
  | StMarkdownSummary pyval
  | StMarkdownKeySkills "pyval list"
  | StMarkdownDifficulty bool bool bool
  | StMarkdownEstimatedTime pyval

subsection \<open>Subscripts, \<^verbatim>\<open>get\<close>, \<^verbatim>\<open>in\<close>, iteration\<close>

text \<open>\<^verbatim>\<open>d.get(k, default)\<close> and \<^verbatim>\<open>k in d\<close> on a dictionary.\<close>

definition dict_get :: "(string \<times> pyval) list \<Rightarrow> string \<Rightarrow> pyval \<Rightarrow> pyval" where
  "dict_get d k dflt = (case map_of d k of None \<Rightarrow> dflt | Some v \<Rightarrow> v)"

definition dict_contains :: "(string \<times> pyval) list \<Rightarrow> string \<Rightarrow> bool" where
  "dict_contains d k = (case map_of d k of None \<Rightarrow> False | Some v \<Rightarrow> True)"

text \<open>
  \<^verbatim>\<open>xs[i]\<close> on a sequence: a negative index counts from the end, an index outside
  \<open>[-len, len)\<close> raises \<^verbatim>\<open>IndexError\<close>.
\<close>

definition seq_index :: "'a list \<Rightarrow> int \<Rightarrow> exn + 'a" where
  "seq_index xs i =
     (if 0 \<le> i \<and> i < int (length xs) then Inr (xs ! nat i)
      else if - int (length xs) \<le> i \<and> i < 0 then Inr (xs ! nat (int (length xs) + i))
      else Inl IndexError)"

text \<open>
  \<^verbatim>\<open>obj[key]\<close>. A dictionary raises \<^verbatim>\<open>KeyError\<close> for a key it does not hold and
  \<^verbatim>\<open>TypeError\<close> for an unhashable key; a list or a string takes an integer
  (\<^verbatim>\<open>bool\<close> is a subclass of \<^verbatim>\<open>int\<close>) and raises \<^verbatim>\<open>TypeError\<close> for anything else;
  the other values are not subscriptable.
\<close>

fun py_getitem :: "pyval \<Rightarrow> pyval \<Rightarrow> exn + pyval" where
  "py_getitem (PDict d) (PStr k) =
     (case map_of d k of None \<Rightarrow> Inl (KeyError (PStr k)) | Some v \<Rightarrow> Inr v)"
| "py_getitem (PDict d) (PList ks) = Inl TypeError"
| "py_getitem (PDict d) (PDict ks) = Inl TypeError"
| "py_getitem (PDict d) key = Inl (KeyError key)"
| "py_getitem (PList xs) (PInt i) = seq_index xs i"
| "py_getitem (PList xs) (PBool b) = seq_index xs (if b then 1 else 0)"
| "py_getitem (PList xs) key = Inl TypeError"
| "py_getitem (PStr s) (PInt i) =
     (case seq_index s i of Inl e \<Rightarrow> Inl e | Inr c \<Rightarrow> Inr (PStr [c]))"
| "py_getitem (PStr s) (PBool b) =
     (case seq_index s (if b then 1 else 0) of Inl e \<Rightarrow> Inl e | Inr c \<Rightarrow> Inr (PStr [c]))"
| "py_getitem (PStr s) key = Inl TypeError"
| "py_getitem obj key = Inl TypeError"

text \<open>\<^verbatim>\<open>obj.get(k, default)\<close>: only a dictionary has the method.\<close>

fun py_get :: "pyval \<Rightarrow> string \<Rightarrow> pyval \<Rightarrow> exn + pyval" where
  "py_get (PDict d) k dflt = Inr (dict_get d k dflt)"
| "py_get obj k dflt = Inl AttributeError"

text \<open>\<^verbatim>\<open>"k" in obj\<close> for a string \<open>k\<close>.\<close>

fun py_contains :: "string \<Rightarrow> pyval \<Rightarrow> exn + bool" where
  "py_contains k (PDict d) = Inr (dict_contains d k)"
| "py_contains k (PList xs) = Inr (list_ex (\<lambda>x. x = PStr k) xs)"
| "py_contains k (PStr s) = Inr (list_ex (\<lambda>t. take (length k) t = k) (map (\<lambda>n. drop n s) [0..<Suc (length s)]))"
| "py_contains k obj = Inl TypeError"

text \<open>\<^verbatim>\<open>for x in obj\<close>: the items of a list, the characters of a string, the keys of
  a dictionary; nothing else iterates.\<close>

fun py_iter :: "pyval \<Rightarrow> exn + pyval list" where
  "py_iter (PList xs) = Inr xs"
| "py_iter (PStr s) = Inr (map (\<lambda>c. PStr [c]) s)"
| "py_iter (PDict d) = Inr (map (\<lambda>kv. PStr (fst kv)) d)"
| "py_iter obj = Inl TypeError"

subsection \<open>Equality\<close>

text \<open>
  \<^verbatim>\<open>a == b\<close>: numbers (booleans among them) compare by value and \<^verbatim>\<open>nan\<close> equals
  nothing, strings and \<^verbatim>\<open>None\<close> compare by content, lists item by item, dictionaries
  key by key; values of different kinds are unequal.
\<close>

fun py_num :: "pyval \<Rightarrow> pyfloat option" where
  "py_num (PBool b) = Some (Finite (if b then 1 else 0))"
| "py_num (PInt i) = Some (Finite (of_int i))"
| "py_num (PFloat x) = Some x"
| "py_num v = None"

definition num_eq :: "pyfloat \<Rightarrow> pyval \<Rightarrow> bool" where
  "num_eq x w =
     (case py_num w of
        None \<Rightarrow> False
      | Some y \<Rightarrow> (case x of NaN \<Rightarrow> False | _ \<Rightarrow> x = y))"

fun py_eq :: "pyval \<Rightarrow> pyval \<Rightarrow> bool"
  and py_eq_list :: "pyval list \<Rightarrow> pyval list \<Rightarrow> bool"
  and py_eq_items :: "(string \<times> pyval) list \<Rightarrow> (string \<times> pyval) list \<Rightarrow> bool"
where
  "py_eq PNone w = (w = PNone)"
| "py_eq (PBool b) w = num_eq (Finite (if b then 1 else 0)) w"
| "py_eq (PInt i) w = num_eq (Finite (of_int i)) w"
| "py_eq (PFloat x) w = num_eq x w"
| "py_eq (PStr s) w = (w = PStr s)"
| "py_eq (PList xs) w = (case w of PList ys \<Rightarrow> py_eq_list xs ys | _ \<Rightarrow> False)"
| "py_eq (PDict d) w =
     (case w of PDict e \<Rightarrow> length d = length e \<and> py_eq_items d e | _ \<Rightarrow> False)"
| "py_eq_list [] ys = (ys = [])"
| "py_eq_list (x # xs) ys =
     (case ys of [] \<Rightarrow> False | y # ys' \<Rightarrow> py_eq x y \<and> py_eq_list xs ys')"
| "py_eq_items [] e = True"
| "py_eq_items (kv # d) e =
     (case map_of e (fst kv) of None \<Rightarrow> False | Some w \<Rightarrow> py_eq (snd kv) w \<and> py_eq_items d e)"

section \<open>Decoding JSON text\<close>

text \<open>
  \<^verbatim>\<open>json.loads\<close> belongs to the Python library, not to the repository, so
  \<open>parse_quiz_response\<close> below takes the decoder as a parameter \<open>loads\<close> and every general
  statement holds for any decoder. For evaluation on concrete texts, \<open>json_loads\<close> is a
  decoder of the JSON texts built from objects, arrays, strings with the one-letter
  escapes, integers, the three literals and the three constants \<^verbatim>\<open>NaN\<close>,
  \<^verbatim>\<open>Infinity\<close> and \<^verbatim>\<open>-Infinity\<close> that the library accepts beyond the standard, with the
  library's whitespace and the library's rule that the last of several equal keys wins.
  Texts with fractions, exponents or \<^verbatim>\<open>\u\<close> escapes are outside what it covers and are
  not used below.
\<close>

definition is_ws :: "char \<Rightarrow> bool" where
  "is_ws c = (c = CHR 0x20 \<or> c = CHR 0x09 \<or> c = CHR 0x0A \<or> c = CHR 0x0D)"

definition skip_ws :: "string \<Rightarrow> string" where
  "skip_ws cs = dropWhile is_ws cs"

definition is_digit :: "char \<Rightarrow> bool" where
  "is_digit c = (48 \<le> (of_char c :: nat) \<and> (of_char c :: nat) \<le> 57)"

definition digits_value :: "string \<Rightarrow> int" where
  "digits_value ds = foldl (\<lambda>a d. 10 * a + (int (of_char d) - 48)) 0 ds"

fun strip_prefix :: "string \<Rightarrow> string \<Rightarrow> string option" where
  "strip_prefix [] cs = Some cs"
| "strip_prefix (p # ps) [] = None"
| "strip_prefix (p # ps) (c # cs) = (if p = c then strip_prefix ps cs else None)"

definition unescape :: "char \<Rightarrow> char option" where
  "unescape e =
     (if e = CHR 0x22 then Some (CHR 0x22)
      else if e = CHR 0x5C then Some (CHR 0x5C)
      else if e = CHR ''/'' then Some (CHR ''/'')
      else if e = CHR ''b'' then Some (CHR 0x08)
      else if e = CHR ''f'' then Some (CHR 0x0C)
      else if e = CHR ''n'' then Some (CHR 0x0A)
      else if e = CHR ''r'' then Some (CHR 0x0D)
      else if e = CHR ''t'' then Some (CHR 0x09)
      else None)"

text \<open>The characters after an opening quote, up to the closing one.\<close>

fun scan_string :: "string \<Rightarrow> (string \<times> string) option" where
  "scan_string [] = None"
| "scan_string [c] = (if c = CHR 0x22 then Some ([], []) else None)"
| "scan_string (c # e # cs) =
     (if c = CHR 0x22 then Some ([], e # cs)
      else if c = CHR 0x5C then
        (case unescape e of
           None \<Rightarrow> None
         | Some ch \<Rightarrow>
             (case scan_string cs of None \<Rightarrow> None | Some (s, r) \<Rightarrow> Some (ch # s, r)))
      else if (of_char c :: nat) < 32 then None
      else (case scan_string (e # cs) of None \<Rightarrow> None | Some (s, r) \<Rightarrow> Some (c # s, r)))"

text \<open>An integer: an optional sign, then \<^verbatim>\<open>0\<close> or a digit string without a leading zero.\<close>

definition scan_digits :: "string \<Rightarrow> (string \<times> string) option" where
  "scan_digits cs =
     (case cs of
        [] \<Rightarrow> None
      | d # r \<Rightarrow>
          if d = CHR ''0'' then Some ([d], r)
          else if is_digit d then Some (takeWhile is_digit cs, dropWhile is_digit cs)
          else None)"

definition scan_number :: "string \<Rightarrow> (pyval \<times> string) option" where
  "scan_number cs =
     (case cs of
        [] \<Rightarrow> None
      | c # r \<Rightarrow>
          if c = CHR ''-'' then
            (case scan_digits r of
               None \<Rightarrow> None
             | Some (ds, rest) \<Rightarrow> Some (PInt (- digits_value ds), rest))
          else
            (case scan_digits cs of
               None \<Rightarrow> None
             | Some (ds, rest) \<Rightarrow> Some (PInt (digits_value ds), rest)))"

text \<open>
  Recursive descent with a bound on the number of nested calls; \<open>scan_elements\<close> and
  \<open>scan_members\<close> start behind the opening bracket and the whitespace that follows it.
\<close>

fun scan_value :: "nat \<Rightarrow> string \<Rightarrow> (pyval \<times> string) option"
  and scan_elements :: "nat \<Rightarrow> pyval list \<Rightarrow> string \<Rightarrow> (pyval \<times> string) option"
  and scan_members :: "nat \<Rightarrow> (string \<times> pyval) list \<Rightarrow> string \<Rightarrow> (pyval \<times> string) option"
where
  "scan_value 0 cs = None"
| "scan_value (Suc n) [] = None"
| "scan_value (Suc n) (c # cs) =
     (if c = CHR 0x22 then
        (case scan_string cs of None \<Rightarrow> None | Some (s, r) \<Rightarrow> Some (PStr s, r))
      else if c = CHR ''['' then
        (case skip_ws cs of
           [] \<Rightarrow> None
         | d # r \<Rightarrow> if d = CHR '']'' then Some (PList [], r) else scan_elements n [] (d # r))
      else if c = CHR 0x7B then
        (case skip_ws cs of
           [] \<Rightarrow> None
         | d # r \<Rightarrow> if d = CHR 0x7D then Some (PDict [], r) else scan_members n [] (d # r))
      else if c = CHR ''n'' then
        (case strip_prefix ''ull'' cs of None \<Rightarrow> None | Some r \<Rightarrow> Some (PNone, r))
      else if c = CHR ''t'' then
        (case strip_prefix ''rue'' cs of None \<Rightarrow> None | Some r \<Rightarrow> Some (PBool True, r))
      else if c = CHR ''f'' then
        (case strip_prefix ''alse'' cs of None \<Rightarrow> None | Some r \<Rightarrow> Some (PBool False, r))
      else
        (case scan_number (c # cs) of
           Some r \<Rightarrow> Some r
         | None \<Rightarrow>
             (case strip_prefix ''NaN'' (c # cs) of
                Some r \<Rightarrow> Some (PFloat NaN, r)
              | None \<Rightarrow>
                  (case strip_prefix ''Infinity'' (c # cs) of
                     Some r \<Rightarrow> Some (PFloat (Infinite True), r)
                   | None \<Rightarrow>
                       (case strip_prefix ''-Infinity'' (c # cs) of
                          Some r \<Rightarrow> Some (PFloat (Infinite False), r)
                        | None \<Rightarrow> None)))))"
| "scan_elements 0 acc cs = None"
| "scan_elements (Suc n) acc cs =
     (case scan_value n cs of
        None \<Rightarrow> None
      | Some (v, r) \<Rightarrow>
          (case skip_ws r of
             [] \<Rightarrow> None
           | d # r' \<Rightarrow>
               if d = CHR '']'' then Some (PList (acc @ [v]), r')
               else if d = CHR '','' then scan_elements n (acc @ [v]) (skip_ws r')
               else None))"
| "scan_members 0 acc cs = None"
| "scan_members (Suc n) acc [] = None"
| "scan_members (Suc n) acc (q # cs) =
     (if q = CHR 0x22 then
        (case scan_string cs of
           None \<Rightarrow> None
         | Some (k, r) \<Rightarrow>
             (case skip_ws r of
                [] \<Rightarrow> None
              | colon # r1 \<Rightarrow>
                  if colon = CHR '':'' then
                    (case scan_value n (skip_ws r1) of
                       None \<Rightarrow> None
                     | Some (v, r2) \<Rightarrow>
                         (case skip_ws r2 of
                            [] \<Rightarrow> None
                          | d # r3 \<Rightarrow>
                              if d = CHR 0x7D then Some (PDict (AList.update k v acc), r3)
                              else if d = CHR '','' then
                                scan_members n (AList.update k v acc) (skip_ws r3)
                              else None))
                  else None))
      else None)"

definition json_loads :: "string \<Rightarrow> exn + pyval" where
  "json_loads s =
     (case scan_value (2 * length s + 2) (skip_ws s) of
        None \<Rightarrow> Inl JSONDecodeError
      | Some (v, rest) \<Rightarrow> if skip_ws rest = [] then Inr v else Inl JSONDecodeError)"

section \<open>The response normalizer\<close>

text \<open>
  \<^verbatim>\<open>parse_quiz_response\<close> (lines 75 to 103). \<open>try_parse\<close> is the body of the
  \<^verbatim>\<open>try\<close>, with the value it returns and the calls to \<^verbatim>\<open>st.error\<close> it makes;
  \<open>parse_quiz_response\<close> adds the two handlers. \<open>Inl\<close> stands for an exception that
  leaves the function.
\<close>

fun try_parse :: "(string \<Rightarrow> exn + pyval) \<Rightarrow> pyval \<Rightarrow> exn + (pyval \<times> st_call list)" where
  "try_parse loads (PList xs) = Inr (PList xs, [])"
| "try_parse loads (PStr s) = (case loads s of Inl e \<Rightarrow> Inl e | Inr v \<Rightarrow> Inr (v, []))"
| "try_parse loads (PDict d) = Inr (dict_get d ''questions'' (PList []), [])"
| "try_parse loads raw_response = Inr (PList [], [StErrorUnexpectedType raw_response])"

definition parse_quiz_response ::
  "(string \<Rightarrow> exn + pyval) \<Rightarrow> pyval \<Rightarrow> exn + (pyval \<times> st_call list)" where
  "parse_quiz_response loads raw_response =
     (case try_parse loads raw_response of
        Inr r \<Rightarrow> Inr r
      | Inl e \<Rightarrow>
          (case e of
             JSONDecodeError \<Rightarrow> Inr (PList [], [StErrorJSONDecodeError e])
           | _ \<Rightarrow> Inr (PList [], [StErrorError e])))"

section \<open>The quiz form\<close>

text \<open>
  \<^verbatim>\<open>display_interactive_quiz_with_form\<close> (lines 7 to 59) first shows every question
  with its radio buttons and stores what each radio returns in the dictionary
  \<^verbatim>\<open>selected_answers\<close> (lines 23 to 31); when the form is submitted it then grades the
  answers (lines 36 to 59). The definitions follow this order: the grading block and its
  parts, the loop that shows the questions, and the function. No record of
  \<^verbatim>\<open>quiz_data\<close> is checked or filtered anywhere. The keys of the form and of its widgets
  are left out.
\<close>

record score =
  score_correct :: int
  score_total :: int
  score_shown :: "st_call list"

text \<open>Lines 43 and 44: \<^verbatim>\<open>question_data["options"][question_data["correct_answer"]]\<close>.\<close>

definition correct_option :: "pyval \<Rightarrow> exn + pyval" where
  "correct_option question_data =
     (case py_getitem question_data (PStr ''correct_answer'') of
        Inl e \<Rightarrow> Inl e
      | Inr correct_index \<Rightarrow>
          (case py_getitem question_data (PStr ''options'') of
             Inl e \<Rightarrow> Inl e
           | Inr options \<Rightarrow> py_getitem options correct_index))"

text \<open>Lines 54 to 56: the explanation, when the record has one.\<close>

definition show_explanation :: "pyval \<Rightarrow> exn + st_call list" where
  "show_explanation question_data =
     (case py_contains ''explanation'' question_data of
        Inl e \<Rightarrow> Inl e
      | Inr has \<Rightarrow>
          if has then
            (case py_getitem question_data (PStr ''explanation'') of
               Inl e \<Rightarrow> Inl e
             | Inr v \<Rightarrow> Inr [StMarkdownExplanation v])
          else Inr [])"

text \<open>
  One pass of the loop body (lines 42 to 56): whether the answer counts, and the calls
  made. \<^verbatim>\<open>selected_answers.get(idx)\<close> is \<^verbatim>\<open>None\<close> where the dictionary has no entry.
\<close>

definition grade_question ::
  "(nat \<rightharpoonup> pyval) \<Rightarrow> nat \<Rightarrow> pyval \<Rightarrow> exn + (bool \<times> st_call list)" where
  "grade_question selected_answers idx question_data =
     (let user_answer = (case selected_answers idx of None \<Rightarrow> PNone | Some a \<Rightarrow> a)
      in case correct_option question_data of
           Inl e \<Rightarrow> Inl e
         | Inr correct_answer \<Rightarrow>
             (let hit = py_eq user_answer correct_answer;
                  verdict = (if hit then [StSuccessCorrect idx]
                             else [StErrorWrong idx, StMarkdownCorrectAnswer correct_answer])
              in case show_explanation question_data of
                   Inl e \<Rightarrow> Inl e
                 | Inr ex \<Rightarrow> Inr (hit, verdict @ ex)))"

text \<open>The loop over \<^verbatim>\<open>enumerate(quiz_data)\<close>, with the counter and the calls made so far.\<close>

fun grade_loop ::
  "(nat \<rightharpoonup> pyval) \<Rightarrow> (nat \<times> pyval) list \<Rightarrow> int \<Rightarrow> st_call list \<Rightarrow> exn + (int \<times> st_call list)"
where
  "grade_loop selected_answers [] correct_count out = Inr (correct_count, out)"
| "grade_loop selected_answers (iq # rest) correct_count out =
     (case grade_question selected_answers (fst iq) (snd iq) of
        Inl e \<Rightarrow> Inl e
      | Inr (hit, calls) \<Rightarrow>
          grade_loop selected_answers rest
            (if hit then correct_count + 1 else correct_count) (out @ calls))"

text \<open>Lines 37 to 59: the statements under \<^verbatim>\<open>if submitted:\<close>.\<close>

definition check_score :: "pyval list \<Rightarrow> (nat \<rightharpoonup> pyval) \<Rightarrow> exn + score" where
  "check_score quiz_data selected_answers =
     (let total_questions = int (length quiz_data)
      in case grade_loop selected_answers (enumerate 0 quiz_data) 0 [] of
           Inl e \<Rightarrow> Inl e
         | Inr (correct_count, out) \<Rightarrow>
             Inr \<lparr>score_correct = correct_count, score_total = total_questions,
                  score_shown = out @ [StMarkdownScore correct_count total_questions]\<rparr>)"

text \<open>
  Lines 23 to 31: for each record the subheader reads \<^verbatim>\<open>question_data['question']\<close>,
  then \<^verbatim>\<open>question_data["options"]\<close> is handed to \<^verbatim>\<open>st.radio\<close>, and what the radio
  returns is stored at the index. \<^verbatim>\<open>st.radio\<close> belongs to Streamlit, so it is a
  parameter \<open>radio\<close>: from the index and the options to the value returned, or to the
  exception raised.
\<close>

fun render_loop ::
  "(nat \<Rightarrow> pyval \<Rightarrow> exn + pyval) \<Rightarrow> (nat \<times> pyval) list \<Rightarrow> (nat \<rightharpoonup> pyval) \<Rightarrow> st_call list
     \<Rightarrow> exn + ((nat \<rightharpoonup> pyval) \<times> st_call list)"
where
  "render_loop radio [] selected_answers out = Inr (selected_answers, out)"
| "render_loop radio (iq # rest) selected_answers out =
     (case py_getitem (snd iq) (PStr ''question'') of
        Inl e \<Rightarrow> Inl e
      | Inr question \<Rightarrow>
          (case py_getitem (snd iq) (PStr ''options'') of
             Inl e \<Rightarrow> Inl e
           | Inr options \<Rightarrow>
               (case radio (fst iq) options of
                  Inl e \<Rightarrow> Inl e
                | Inr chosen \<Rightarrow>
                    render_loop radio rest (selected_answers(fst iq \<mapsto> chosen))
                      (out @ [StSubheader (fst iq) question, StRadio (fst iq) options]))))"

text \<open>
  The function: the calls made while the form is shown, and the score when the form was
  submitted.
\<close>

definition display_interactive_quiz_with_form ::
  "(nat \<Rightarrow> pyval \<Rightarrow> exn + pyval) \<Rightarrow> bool \<Rightarrow> pyval list \<Rightarrow> exn + (st_call list \<times> score option)"
where
  "display_interactive_quiz_with_form radio submitted quiz_data =
     (case render_loop radio (enumerate 0 quiz_data) Map.empty [StWriteIntro] of
        Inl e \<Rightarrow> Inl e
      | Inr (selected_answers, shown) \<Rightarrow>
          if submitted then
            (case check_score quiz_data selected_answers of
               Inl e \<Rightarrow> Inl e
             | Inr sc \<Rightarrow> Inr (shown, Some sc))
          else Inr (shown, None))"

text \<open>
  A radio of the form, created with \<^verbatim>\<open>index=None\<close>, returns the option the user
  selected, and \<^verbatim>\<open>None\<close> when nothing is selected. \<open>radio_of selected\<close> is the radio
  for a user whose selection at index \<open>idx\<close> is \<open>selected idx\<close>, and
  \<open>quiz_form_submitted\<close> is the function for that user when the form is submitted: the
  questions are shown, the answers stored, and the score computed.
\<close>

definition radio_of :: "(nat \<rightharpoonup> pyval) \<Rightarrow> nat \<Rightarrow> pyval \<Rightarrow> exn + pyval" where
  "radio_of selected idx options = Inr (case selected idx of None \<Rightarrow> PNone | Some a \<Rightarrow> a)"

definition quiz_form_submitted :: "pyval list \<Rightarrow> (nat \<rightharpoonup> pyval) \<Rightarrow> exn + score" where
  "quiz_form_submitted quiz_data selected =
     (case render_loop (radio_of selected) (enumerate 0 quiz_data) Map.empty [StWriteIntro] of
        Inl e \<Rightarrow> Inl e
      | Inr (selected_answers, shown) \<Rightarrow> check_score quiz_data selected_answers)"

subsection \<open>What the statements about grading refer to\<close>

text \<open>
  A question record as the data model describes it: a dictionary with a non-empty text
  \<^verbatim>\<open>question\<close>, a list \<^verbatim>\<open>options\<close> of exactly four texts and an integer
  \<^verbatim>\<open>correct_answer\<close> with \<open>0 \<le> correct_answer < len(options)\<close>.
\<close>

fun is_text :: "pyval \<Rightarrow> bool" where
  "is_text (PStr s) = True"
| "is_text v = False"

fun valid_question :: "pyval \<Rightarrow> bool" where
  "valid_question (PDict d) =
     (case map_of d ''question'' of
        Some (PStr q) \<Rightarrow>
          (case map_of d ''options'' of
             Some (PList os) \<Rightarrow>
               (case map_of d ''correct_answer'' of
                  Some (PInt i) \<Rightarrow>
                    q \<noteq> [] \<and> length os = 4 \<and> list_all is_text os \<and> 0 \<le> i \<and> i < int (length os)
                | _ \<Rightarrow> False)
           | _ \<Rightarrow> False)
      | _ \<Rightarrow> False)"
| "valid_question v = False"

text \<open>The answer selected at an index is, as a value, the correct option of the record.\<close>

definition answered_correctly :: "(nat \<rightharpoonup> pyval) \<Rightarrow> nat \<times> pyval \<Rightarrow> bool" where
  "answered_correctly selected iq =
     (case correct_option (snd iq) of
        Inl e \<Rightarrow> False
      | Inr c \<Rightarrow> selected (fst iq) = Some c)"

text \<open>The index of a verdict call, for the calls that are verdicts.\<close>

fun verdict_index :: "st_call \<Rightarrow> nat option" where
  "verdict_index (StSuccessCorrect i) = Some i"
| "verdict_index (StErrorWrong i) = Some i"
| "verdict_index c = None"

section \<open>Rendering a summary\<close>

text \<open>
  \<^verbatim>\<open>display_enhanced_summary\<close> (lines 106 to 206). \<^verbatim>\<open>str.lower\<close> is modelled on the
  ASCII letters. \<open>Inl e\<close> is the exception that ends the function.
\<close>

definition lower_char :: "char \<Rightarrow> char" where
  "lower_char c =
     (if 65 \<le> (of_char c :: nat) \<and> (of_char c :: nat) \<le> 90
      then char_of ((of_char c :: nat) + 32) else c)"

fun py_lower :: "pyval \<Rightarrow> exn + string" where
  "py_lower (PStr s) = Inr (map lower_char s)"
| "py_lower v = Inl AttributeError"

text \<open>Line 188: \<^verbatim>\<open>summary_data.get('difficulty', 'Medium').lower()\<close>.\<close>

definition difficulty_of :: "pyval \<Rightarrow> exn + string" where
  "difficulty_of summary_data =
     (case py_get summary_data ''difficulty'' (PStr ''Medium'') of
        Inl e \<Rightarrow> Inl e
      | Inr v \<Rightarrow> py_lower v)"

definition display_enhanced_summary :: "pyval \<Rightarrow> exn + st_call list" where
  "display_enhanced_summary summary_data =
     (case py_getitem summary_data (PStr ''summary'') of
        Inl e \<Rightarrow> Inl e
      | Inr summary \<Rightarrow>
     (case py_getitem summary_data (PStr ''key_skills'') of
        Inl e \<Rightarrow> Inl e
      | Inr key_skills \<Rightarrow>
     (case py_iter key_skills of
        Inl e \<Rightarrow> Inl e
      | Inr skills \<Rightarrow>
     (case difficulty_of summary_data of
        Inl e \<Rightarrow> Inl e
      | Inr difficulty \<Rightarrow>
     (case py_getitem summary_data (PStr ''estimated_time'') of
        Inl e \<Rightarrow> Inl e
      | Inr estimated_time \<Rightarrow>
          Inr [StMarkdownStyles,
               StMarkdownSummary summary,
               StMarkdownKeySkills skills,
               StMarkdownDifficulty
                 (difficulty = ''easy'') (difficulty = ''medium'') (difficulty = ''hard''),
               StMarkdownEstimatedTime estimated_time])))))"

subsection \<open>Two sample questions\<close>

text \<open>The question of the two scenarios of the specification, and one whose first two
  options have the same text.\<close>

abbreviation two_plus_two :: pyval where
  "two_plus_two \<equiv>
     PDict [(''question'', PStr ''2+2?''),
            (''options'', PList [PStr ''3'', PStr ''4'', PStr ''5'', PStr ''6'']),
            (''correct_answer'', PInt 1)]"

abbreviation four_twice :: pyval where
  "four_twice \<equiv>
     PDict [(''question'', PStr ''2+2?''),
            (''options'', PList [PStr ''4'', PStr ''4'', PStr ''5'', PStr ''6'']),
            (''correct_answer'', PInt 0)]"

section \<open>Properties of the response normalizer\<close>

text \<open>
  C9. A list is returned as it is: on lists \<open>parse_quiz_response\<close> is the identity, and
  nothing is reported.
\<close>

theorem parse_quiz_response_list_unchanged:
  "parse_quiz_response loads (PList xs) = Inr (PList xs, [])"
  by (simp add: parse_quiz_response_def)

text \<open>
  C8. For a dictionary the result is the value stored under \<^verbatim>\<open>questions\<close>, and the empty
  list when the key is absent; in both cases nothing is reported.
\<close>

theorem parse_quiz_response_dict_questions:
  "parse_quiz_response loads (PDict d) =
     Inr (case map_of d ''questions'' of None \<Rightarrow> PList [] | Some v \<Rightarrow> v, [])"
  by (simp add: parse_quiz_response_def dict_get_def)






lemma json_loads_2plus2:
  \<open>json_loads ''{"questions": [{"question": "2+2?", "options": ["3", "4", "5", "6"], "correct_answer": 1}]}'' =
     Inr (PDict [(''questions'', PList [PDict [(''question'', PStr ''2+2?''),
        (''options'', PList [PStr ''3'', PStr ''4'', PStr ''5'', PStr ''6'']),
        (''correct_answer'', PInt 1)]])])\<close>
  by code_simp

text \<open>
  C1. The text of an object with a \<^verbatim>\<open>questions\<close> list and the object itself do not give
  the same result: for the text, line 91 returns the decoded object whole, a dictionary
  with the one key \<^verbatim>\<open>questions\<close>; for the object, line 94 returns the list stored under
  that key.
\<close>

theorem parse_quiz_response_text_returns_object:
  \<open>parse_quiz_response json_loads
      (PStr ''{"questions": [{"question": "2+2?", "options": ["3", "4", "5", "6"], "correct_answer": 1}]}'') =
     Inr (PDict [(''questions'', PList [PDict [(''question'', PStr ''2+2?''),
        (''options'', PList [PStr ''3'', PStr ''4'', PStr ''5'', PStr ''6'']),
        (''correct_answer'', PInt 1)]])], [])
   \<and> parse_quiz_response json_loads
      (PDict [(''questions'', PList [PDict [(''question'', PStr ''2+2?''),
        (''options'', PList [PStr ''3'', PStr ''4'', PStr ''5'', PStr ''6'']),
        (''correct_answer'', PInt 1)]])]) =
     Inr (PList [PDict [(''question'', PStr ''2+2?''),
        (''options'', PList [PStr ''3'', PStr ''4'', PStr ''5'', PStr ''6'']),
        (''correct_answer'', PInt 1)]], [])\<close>
  by (simp add: parse_quiz_response_def json_loads_2plus2 dict_get_def)

section \<open>Properties of grading\<close>

lemma py_eq_text: "py_eq a (PStr t) = (a = PStr t)"
  by (cases a) (auto simp add: num_eq_def)

lemma valid_questionD:
  assumes "valid_question q"
  obtains d qt os i where "q = PDict d" "map_of d ''question'' = Some (PStr qt)"
    "map_of d ''options'' = Some (PList os)" "map_of d ''correct_answer'' = Some (PInt i)"
    "qt \<noteq> []" "length os = 4" "list_all is_text os" "0 \<le> i" "i < int (length os)"
proof (cases q)
  case (PDict d)
  with assms obtain qt where 1: "map_of d ''question'' = Some (PStr qt)"
    by (simp split: option.splits pyval.splits)
  with assms PDict obtain os where 2: "map_of d ''options'' = Some (PList os)"
    by (simp split: option.splits pyval.splits)
  with assms PDict 1 obtain i where 3: "map_of d ''correct_answer'' = Some (PInt i)"
    by (simp split: option.splits pyval.splits)
  with assms PDict 1 2 have "qt \<noteq> []" "length os = 4" "list_all is_text os" "0 \<le> i" "i < int (length os)"
    by simp_all
  with PDict 1 2 3 that show ?thesis by blast
qed (use assms in simp_all)

lemma is_text_nth: "list_all is_text os \<Longrightarrow> n < length os \<Longrightarrow> \<exists>t. os ! n = PStr t"
proof -
  assume "list_all is_text os" "n < length os"
  then have "is_text (os ! n)" by (simp add: list_all_length)
  then show ?thesis by (cases "os ! n") simp_all
qed

lemma correct_option_valid:
  assumes "valid_question q"
  shows "\<exists>t. correct_option q = Inr (PStr t)"
proof -
  from assms obtain d qt os i where q: "q = PDict d"
    and o: "map_of d ''options'' = Some (PList os)"
    and c: "map_of d ''correct_answer'' = Some (PInt i)"
    and t: "list_all is_text os" and lo: "0 \<le> i" and hi: "i < int (length os)"
    by (rule valid_questionD)
  from lo hi have n: "nat i < length os" by simp
  from is_text_nth [OF t n] obtain s where "os ! nat i = PStr s" ..
  with q o c lo hi show ?thesis
    by (simp add: correct_option_def seq_index_def)
qed

lemma show_explanation_dict:
  "\<exists>ex. show_explanation (PDict d) = Inr ex \<and> List.map_filter verdict_index ex = []
     \<and> (\<forall>k. StSuccessCorrect k \<notin> set ex \<and> StErrorWrong k \<notin> set ex)"
proof (cases "map_of d ''explanation''")
  case None
  then show ?thesis
    by (simp add: show_explanation_def dict_contains_def List.map_filter_simps)
next
  case (Some v)
  then show ?thesis
    by (simp add: show_explanation_def dict_contains_def List.map_filter_simps)
qed

lemma grade_question_valid:
  assumes "valid_question q"
  shows "\<exists>t ex. correct_option q = Inr (PStr t) \<and> grade_question sel idx q =
           Inr (answered_correctly sel (idx, q),
                (if answered_correctly sel (idx, q) then [StSuccessCorrect idx]
                 else [StErrorWrong idx, StMarkdownCorrectAnswer (PStr t)]) @ ex)
         \<and> (\<forall>k. StSuccessCorrect k \<notin> set ex \<and> StErrorWrong k \<notin> set ex)"
proof -
  from correct_option_valid [OF assms] obtain t where t: "correct_option q = Inr (PStr t)" ..
  from assms obtain d where q: "q = PDict d" by (rule valid_questionD)
  from show_explanation_dict [of d] q obtain ex where ex: "show_explanation q = Inr ex"
    and nv: "\<forall>k. StSuccessCorrect k \<notin> set ex \<and> StErrorWrong k \<notin> set ex" by blast
  have h: "py_eq (case sel idx of None \<Rightarrow> PNone | Some a \<Rightarrow> a) (PStr t) = (sel idx = Some (PStr t))"
    by (simp add: py_eq_text split: option.splits)
  have a: "answered_correctly sel (idx, q) = (sel idx = Some (PStr t))"
    by (simp add: answered_correctly_def t)
  have "grade_question sel idx q =
           Inr (answered_correctly sel (idx, q),
                (if answered_correctly sel (idx, q) then [StSuccessCorrect idx]
                 else [StErrorWrong idx, StMarkdownCorrectAnswer (PStr t)]) @ ex)"
    unfolding a by (simp add: grade_question_def t ex h Let_def)
  with t nv show ?thesis by blast
qed

lemma grade_loop_valid:
  "list_all (\<lambda>iq. valid_question (snd iq)) ps \<Longrightarrow>
   \<exists>calls. grade_loop sel ps cc out =
             Inr (cc + int (length (filter (answered_correctly sel) ps)), out @ calls)
        \<and> (\<forall>k. StSuccessCorrect k \<in> set calls \<longleftrightarrow>
               (\<exists>q. (k, q) \<in> set ps \<and> answered_correctly sel (k, q)))
        \<and> (\<forall>k. StErrorWrong k \<in> set calls \<longleftrightarrow>
               (\<exists>q. (k, q) \<in> set ps \<and> \<not> answered_correctly sel (k, q)))"
proof (induction ps arbitrary: cc out)
  case Nil
  then show ?case by simp
next
  case (Cons iq ps)
  obtain idx q where iq: "iq = (idx, q)" by (cases iq)
  from Cons.prems iq have vq: "valid_question q"
    and rest: "list_all (\<lambda>iq. valid_question (snd iq)) ps"
    by simp_all
  let ?h = "answered_correctly sel (idx, q)"
  from grade_question_valid [OF vq, of sel idx] obtain t ex where
    g: "grade_question sel idx q =
           Inr (?h, (if ?h then [StSuccessCorrect idx]
                     else [StErrorWrong idx, StMarkdownCorrectAnswer (PStr t)]) @ ex)"
    and nv: "\<forall>k. StSuccessCorrect k \<notin> set ex \<and> StErrorWrong k \<notin> set ex" by blast
  let ?v = "(if ?h then [StSuccessCorrect idx]
             else [StErrorWrong idx, StMarkdownCorrectAnswer (PStr t)]) @ ex"
  let ?cc = "if ?h then cc + 1 else cc"
  from Cons.IH [OF rest, of ?cc "out @ ?v"]
  obtain calls where
    l: "grade_loop sel ps ?cc (out @ ?v) =
          Inr (?cc + int (length (filter (answered_correctly sel) ps)), (out @ ?v) @ calls)"
    and s: "\<forall>k. StSuccessCorrect k \<in> set calls \<longleftrightarrow>
               (\<exists>q. (k, q) \<in> set ps \<and> answered_correctly sel (k, q))"
    and w: "\<forall>k. StErrorWrong k \<in> set calls \<longleftrightarrow>
               (\<exists>q. (k, q) \<in> set ps \<and> \<not> answered_correctly sel (k, q))"
    by blast
  have step: "grade_loop sel (iq # ps) cc out = grade_loop sel ps ?cc (out @ ?v)"
    unfolding iq by (simp only: grade_loop.simps fst_conv snd_conv g sum.case prod.case)
  have cnt: "?cc + int (length (filter (answered_correctly sel) ps)) =
             cc + int (length (filter (answered_correctly sel) (iq # ps)))"
    by (simp add: iq)
  have 1: "grade_loop sel (iq # ps) cc out =
             Inr (cc + int (length (filter (answered_correctly sel) (iq # ps))), out @ (?v @ calls))"
    unfolding step l cnt by simp
  have 2: "\<forall>k. StSuccessCorrect k \<in> set (?v @ calls) \<longleftrightarrow>
              (\<exists>q. (k, q) \<in> set (iq # ps) \<and> answered_correctly sel (k, q))"
  proof
    fix k
    show "StSuccessCorrect k \<in> set (?v @ calls) \<longleftrightarrow>
              (\<exists>q. (k, q) \<in> set (iq # ps) \<and> answered_correctly sel (k, q))"
      using s nv unfolding iq by (cases ?h) auto
  qed
  have 3: "\<forall>k. StErrorWrong k \<in> set (?v @ calls) \<longleftrightarrow>
              (\<exists>q. (k, q) \<in> set (iq # ps) \<and> \<not> answered_correctly sel (k, q))"
  proof
    fix k
    show "StErrorWrong k \<in> set (?v @ calls) \<longleftrightarrow>
              (\<exists>q. (k, q) \<in> set (iq # ps) \<and> \<not> answered_correctly sel (k, q))"
      using w nv unfolding iq by (cases ?h) auto
  qed
  from 1 2 3 show ?case by blast
qed

lemma map_filter_app:
  "List.map_filter f (xs @ ys) = List.map_filter f xs @ List.map_filter f ys"
  by (simp add: List.map_filter_def)

lemma show_explanation_no_verdict:
  assumes "show_explanation q = Inr ex"
  shows "List.map_filter verdict_index ex = []"
proof (cases "py_contains ''explanation'' q")
  case (Inl e)
  with assms show ?thesis by (simp add: show_explanation_def)
next
  case (Inr has)
  show ?thesis
  proof (cases has)
    case False
    with Inr assms show ?thesis by (simp add: show_explanation_def List.map_filter_simps)
  next
    case True
    show ?thesis
    proof (cases "py_getitem q (PStr ''explanation'')")
      case (Inl e)
      with Inr True assms show ?thesis by (simp add: show_explanation_def)
    next
      case (Inr v)
      with \<open>py_contains ''explanation'' q = Inr has\<close> True assms show ?thesis
        by (auto simp add: show_explanation_def List.map_filter_simps)
    qed
  qed
qed

lemma grade_question_one_verdict:
  assumes "grade_question sel idx q = Inr (hit, calls)"
  shows "List.map_filter verdict_index calls = [idx]"
proof (cases "correct_option q")
  case (Inl e)
  with assms show ?thesis by (simp add: grade_question_def)
next
  case c: (Inr correct_answer)
  show ?thesis
  proof (cases "show_explanation q")
    case (Inl e)
    with c assms show ?thesis by (simp add: grade_question_def Let_def)
  next
    case (Inr ex)
    from show_explanation_no_verdict [OF Inr] have nv: "List.map_filter verdict_index ex = []" .
    from c Inr assms have
      "calls = (if hit then [StSuccessCorrect idx]
                else [StErrorWrong idx, StMarkdownCorrectAnswer correct_answer]) @ ex"
      by (auto simp add: grade_question_def Let_def)
    with nv show ?thesis
      by (simp add: map_filter_app List.map_filter_simps)
  qed
qed

lemma grade_loop_bounds:
  "grade_loop sel ps cc out = Inr (cc', out') \<Longrightarrow>
   cc \<le> cc' \<and> cc' \<le> cc + int (length ps) \<and>
   List.map_filter verdict_index out' = List.map_filter verdict_index out @ map fst ps"
proof (induction ps arbitrary: cc out)
  case Nil
  then show ?case by simp
next
  case (Cons iq ps)
  show ?case
  proof (cases "grade_question sel (fst iq) (snd iq)")
    case (Inl e)
    with Cons.prems show ?thesis by simp
  next
    case (Inr r)
    obtain hit calls where r: "r = (hit, calls)" by (cases r)
    from Inr r have g: "grade_question sel (fst iq) (snd iq) = Inr (hit, calls)" by simp
    with Cons.prems have
      l: "grade_loop sel ps (if hit then cc + 1 else cc) (out @ calls) = Inr (cc', out')"
      by simp
    from grade_question_one_verdict [OF g]
    have v: "List.map_filter verdict_index calls = [fst iq]" .
    from Cons.IH [OF l] have
      a: "(if hit then cc + 1 else cc) \<le> cc'"
      and b: "cc' \<le> (if hit then cc + 1 else cc) + int (length ps)"
      and c: "List.map_filter verdict_index out' =
               List.map_filter verdict_index (out @ calls) @ map fst ps"
      by simp_all
    from a have 1: "cc \<le> cc'" by (simp split: if_splits)
    from b have 2: "cc' \<le> cc + int (length (iq # ps))" by (simp split: if_splits)
    from c v have 3: "List.map_filter verdict_index out' =
               List.map_filter verdict_index out @ map fst (iq # ps)"
      by (simp add: map_filter_app)
    from 1 2 3 show ?thesis by blast
  qed
qed

lemmas grade_eval =
  quiz_form_submitted_def radio_of_def check_score_def enumerate_eq_zip grade_question_def
  correct_option_def show_explanation_def dict_contains_def seq_index_def

lemma two_plus_two_answered:
  "quiz_form_submitted [two_plus_two] [0 \<mapsto> PStr ''4''] =
     Inr \<lparr>score_correct = 1, score_total = 1,
          score_shown = [StSuccessCorrect 0, StMarkdownScore 1 1]\<rparr>"
  by (simp add: grade_eval)

lemma two_plus_two_unanswered:
  "quiz_form_submitted [two_plus_two] Map.empty =
     Inr \<lparr>score_correct = 0, score_total = 1,
          score_shown = [StErrorWrong 0, StMarkdownCorrectAnswer (PStr ''4''),
                         StMarkdownScore 0 1]\<rparr>"
  by (simp add: grade_eval)

lemma check_score_valid:
  assumes "list_all valid_question quiz_data"
  shows "\<exists>calls. check_score quiz_data sel =
      Inr \<lparr>score_correct = int (length (filter (answered_correctly sel) (enumerate 0 quiz_data))),
           score_total = int (length quiz_data),
           score_shown = calls @ [StMarkdownScore
             (int (length (filter (answered_correctly sel) (enumerate 0 quiz_data))))
             (int (length quiz_data))]\<rparr>
    \<and> (\<forall>k. StSuccessCorrect k \<in> set calls \<longleftrightarrow>
           (\<exists>q. (k, q) \<in> set (enumerate 0 quiz_data) \<and> answered_correctly sel (k, q)))
    \<and> (\<forall>k. StErrorWrong k \<in> set calls \<longleftrightarrow>
           (\<exists>q. (k, q) \<in> set (enumerate 0 quiz_data) \<and> \<not> answered_correctly sel (k, q)))"
proof -
  have "valid_question (snd iq)" if "iq \<in> set (enumerate 0 quiz_data)" for iq
  proof -
    from that have "fst iq < length quiz_data" "quiz_data ! fst iq = snd iq"
      by (simp_all add: in_set_enumerate_eq)
    then have "snd iq \<in> set quiz_data" by (metis nth_mem)
    with assms show ?thesis by (simp add: list_all_iff)
  qed
  then have "list_all (\<lambda>iq. valid_question (snd iq)) (enumerate 0 quiz_data)"
    by (simp add: list_all_iff)
  from grade_loop_valid [OF this, of sel 0 "[]"] obtain calls where
    l: "grade_loop sel (enumerate 0 quiz_data) 0 [] =
          Inr (int (length (filter (answered_correctly sel) (enumerate 0 quiz_data))), calls)"
    and s: "\<forall>k. StSuccessCorrect k \<in> set calls \<longleftrightarrow>
           (\<exists>q. (k, q) \<in> set (enumerate 0 quiz_data) \<and> answered_correctly sel (k, q))"
    and w: "\<forall>k. StErrorWrong k \<in> set calls \<longleftrightarrow>
           (\<exists>q. (k, q) \<in> set (enumerate 0 quiz_data) \<and> \<not> answered_correctly sel (k, q))"
    by auto
  from l have "check_score quiz_data sel =
      Inr \<lparr>score_correct = int (length (filter (answered_correctly sel) (enumerate 0 quiz_data))),
           score_total = int (length quiz_data),
           score_shown = calls @ [StMarkdownScore
             (int (length (filter (answered_correctly sel) (enumerate 0 quiz_data))))
             (int (length quiz_data))]\<rparr>"
    by (simp add: check_score_def Let_def)
  with s w show ?thesis by blast
qed

text \<open>
  What the radios return is what grading reads: the dictionary that the loop of lines
  23 to 31 builds holds, at every index of the quiz, the value of the radio.
\<close>

lemma grade_question_same_answer:
  assumes "(case b idx of None \<Rightarrow> PNone | Some a \<Rightarrow> a) =
           (case sel idx of None \<Rightarrow> PNone | Some a \<Rightarrow> a)"
  shows "grade_question b idx q = grade_question sel idx q"
  using assms by (simp add: grade_question_def)

lemma grade_loop_same_answers:
  "list_all (\<lambda>iq. (case b (fst iq) of None \<Rightarrow> PNone | Some a \<Rightarrow> a) =
                   (case sel (fst iq) of None \<Rightarrow> PNone | Some a \<Rightarrow> a)) ps \<Longrightarrow>
   grade_loop b ps cc out = grade_loop sel ps cc out"
proof (induction ps arbitrary: cc out)
  case Nil
  then show ?case by simp
next
  case (Cons iq ps)
  from Cons.prems have
    h: "(case b (fst iq) of None \<Rightarrow> PNone | Some a \<Rightarrow> a) =
        (case sel (fst iq) of None \<Rightarrow> PNone | Some a \<Rightarrow> a)"
    and t: "list_all (\<lambda>iq. (case b (fst iq) of None \<Rightarrow> PNone | Some a \<Rightarrow> a) =
                   (case sel (fst iq) of None \<Rightarrow> PNone | Some a \<Rightarrow> a)) ps"
    by (simp_all only: list_all_Cons_iff)
  have g: "grade_question b (fst iq) (snd iq) = grade_question sel (fst iq) (snd iq)"
    by (rule grade_question_same_answer [of b "fst iq" sel, OF h])
  show ?case
  proof (cases "grade_question sel (fst iq) (snd iq)")
    case (Inl e)
    with g show ?thesis by (simp only: grade_loop.simps sum.case)
  next
    case (Inr r)
    obtain hit calls where "r = (hit, calls)" by (cases r)
    with Inr g have
      1: "grade_question sel (fst iq) (snd iq) = Inr (hit, calls)"
      and 2: "grade_question b (fst iq) (snd iq) = Inr (hit, calls)"
      by simp_all
    have "grade_loop b (iq # ps) cc out =
          grade_loop b ps (if hit then cc + 1 else cc) (out @ calls)"
      by (simp only: grade_loop.simps 2 sum.case prod.case)
    also have "\<dots> = grade_loop sel ps (if hit then cc + 1 else cc) (out @ calls)"
      by (rule Cons.IH [OF t])
    also have "\<dots> = grade_loop sel (iq # ps) cc out"
      by (simp only: grade_loop.simps 1 sum.case prod.case)
    finally show ?thesis .
  qed
qed

lemma render_loop_radio_of:
  "render_loop (radio_of sel) ps b out = Inr (b', out') \<Longrightarrow>
   b' k = (if k \<in> fst ` set ps then Some (case sel k of None \<Rightarrow> PNone | Some a \<Rightarrow> a)
           else b k)"
proof (induction ps arbitrary: b out)
  case Nil
  then show ?case by simp
next
  case (Cons iq ps)
  let ?v = "case sel (fst iq) of None \<Rightarrow> PNone | Some a \<Rightarrow> a"
  have ro: "radio_of sel (fst iq) options = Inr ?v" for options
    by (simp add: radio_of_def)
  from Cons.prems obtain out1 where
    r: "render_loop (radio_of sel) ps (b(fst iq \<mapsto> ?v)) out1 = Inr (b', out')"
    by (auto simp add: ro split: sum.splits)
  from Cons.IH [OF r]
  have "b' k = (if k \<in> fst ` set ps then Some (case sel k of None \<Rightarrow> PNone | Some a \<Rightarrow> a)
                else (b(fst iq \<mapsto> ?v)) k)" .
  then show ?case by (cases "k = fst iq") simp_all
qed

lemma check_score_same_answers:
  assumes "render_loop (radio_of sel) (enumerate 0 quiz_data) b out = Inr (b', out')"
  shows "check_score quiz_data b' = check_score quiz_data sel"
proof -
  have "list_all (\<lambda>iq. (case b' (fst iq) of None \<Rightarrow> PNone | Some a \<Rightarrow> a) =
                   (case sel (fst iq) of None \<Rightarrow> PNone | Some a \<Rightarrow> a)) (enumerate 0 quiz_data)"
    unfolding list_all_iff
  proof
    fix iq assume "iq \<in> set (enumerate 0 quiz_data)"
    then have "fst iq \<in> fst ` set (enumerate 0 quiz_data)" by (rule imageI)
    with render_loop_radio_of [OF assms, of "fst iq"]
    show "(case b' (fst iq) of None \<Rightarrow> PNone | Some a \<Rightarrow> a) =
          (case sel (fst iq) of None \<Rightarrow> PNone | Some a \<Rightarrow> a)"
      by simp
  qed
  from grade_loop_same_answers [of b' sel "enumerate 0 quiz_data" 0 "[]", OF this]
  show ?thesis
    by (simp add: check_score_def)
qed

lemma render_loop_valid:
  "list_all (\<lambda>iq. valid_question (snd iq)) ps \<Longrightarrow>
   \<exists>b' out'. render_loop (radio_of sel) ps b out = Inr (b', out')"
proof (induction ps arbitrary: b out)
  case Nil
  then show ?case by simp
next
  case (Cons iq ps)
  from Cons.prems have "valid_question (snd iq)" by simp
  then obtain d qt os where "snd iq = PDict d" "map_of d ''question'' = Some (PStr qt)"
    "map_of d ''options'' = Some (PList os)"
    by (rule valid_questionD)
  moreover from Cons.prems Cons.IH have
    "\<exists>b' out'. render_loop (radio_of sel) ps b1 out1 = Inr (b', out')" for b1 out1
    by simp
  moreover have "radio_of sel (fst iq) options =
      Inr (case sel (fst iq) of None \<Rightarrow> PNone | Some a \<Rightarrow> a)" for options
    by (simp add: radio_of_def)
  ultimately show ?case by simp
qed

lemma enumerate_valid:
  assumes "list_all valid_question quiz_data"
  shows "list_all (\<lambda>iq. valid_question (snd iq)) (enumerate 0 quiz_data)"
  unfolding list_all_iff
proof
  fix iq assume "iq \<in> set (enumerate 0 quiz_data)"
  then have "fst iq < length quiz_data" "quiz_data ! fst iq = snd iq"
    by (simp_all add: in_set_enumerate_eq)
  then have "snd iq \<in> set quiz_data" by (metis nth_mem)
  with assms show "valid_question (snd iq)" by (simp add: list_all_iff)
qed

lemma quiz_form_submitted_check_score:
  assumes "list_all valid_question quiz_data"
  shows "quiz_form_submitted quiz_data sel = check_score quiz_data sel"
proof -
  from render_loop_valid [OF enumerate_valid [OF assms], of sel Map.empty "[StWriteIntro]"]
  obtain b' out' where
    r: "render_loop (radio_of sel) (enumerate 0 quiz_data) Map.empty [StWriteIntro] = Inr (b', out')"
    by blast
  from check_score_same_answers [OF r] r show ?thesis
    by (simp add: quiz_form_submitted_def)
qed

lemma quiz_form_submitted_returned:
  assumes "quiz_form_submitted quiz_data sel = Inr sc"
  shows "check_score quiz_data sel = Inr sc"
proof (cases "render_loop (radio_of sel) (enumerate 0 quiz_data) Map.empty [StWriteIntro]")
  case (Inl e)
  with assms show ?thesis by (simp add: quiz_form_submitted_def)
next
  case (Inr r)
  obtain b' out' where "r = (b', out')" by (cases r)
  with Inr have
    r: "render_loop (radio_of sel) (enumerate 0 quiz_data) Map.empty [StWriteIntro] = Inr (b', out')"
    by simp
  from check_score_same_answers [OF r] r assms show ?thesis
    by (simp add: quiz_form_submitted_def)
qed

text \<open>
  \<open>quiz_form_submitted\<close> is \<open>display_interactive_quiz_with_form\<close> with the form
  submitted, for the radios of a user: the same exception, or the same score.
\<close>

lemma quiz_form_submitted_is_the_function:
  "(display_interactive_quiz_with_form (radio_of sel) True quiz_data = Inl e \<longleftrightarrow>
      quiz_form_submitted quiz_data sel = Inl e)
   \<and> ((\<exists>shown. display_interactive_quiz_with_form (radio_of sel) True quiz_data =
          Inr (shown, Some sc)) \<longleftrightarrow>
      quiz_form_submitted quiz_data sel = Inr sc)"
proof (cases "render_loop (radio_of sel) (enumerate 0 quiz_data) Map.empty [StWriteIntro]")
  case (Inl x)
  then show ?thesis
    by (simp add: display_interactive_quiz_with_form_def quiz_form_submitted_def)
next
  case (Inr r)
  obtain b' shown where "r = (b', shown)" by (cases r)
  with Inr have
    r: "render_loop (radio_of sel) (enumerate 0 quiz_data) Map.empty [StWriteIntro] =
          Inr (b', shown)"
    by simp
  show ?thesis
    unfolding display_interactive_quiz_with_form_def quiz_form_submitted_def r
    by (cases "check_score quiz_data b'") simp_all
qed

lemma quiz_form_submitted_valid:
  assumes "list_all valid_question quiz_data"
  shows "\<exists>calls. quiz_form_submitted quiz_data sel =
      Inr \<lparr>score_correct = int (length (filter (answered_correctly sel) (enumerate 0 quiz_data))),
           score_total = int (length quiz_data),
           score_shown = calls @ [StMarkdownScore
             (int (length (filter (answered_correctly sel) (enumerate 0 quiz_data))))
             (int (length quiz_data))]\<rparr>
    \<and> (\<forall>k. StSuccessCorrect k \<in> set calls \<longleftrightarrow>
           (\<exists>q. (k, q) \<in> set (enumerate 0 quiz_data) \<and> answered_correctly sel (k, q)))
    \<and> (\<forall>k. StErrorWrong k \<in> set calls \<longleftrightarrow>
           (\<exists>q. (k, q) \<in> set (enumerate 0 quiz_data) \<and> \<not> answered_correctly sel (k, q)))"
  unfolding quiz_form_submitted_check_score [OF assms]
  by (rule check_score_valid [OF assms])

lemma grade_question_by_value:
  assumes v: "valid_question (PDict d)"
    and o: "map_of d ''options'' = Some (PList os)"
    and c: "map_of d ''correct_answer'' = Some (PInt i)"
  shows "\<exists>calls. grade_question sel idx (PDict d) = Inr (sel idx = Some (os ! nat i), calls)"
proof -
  from v o c have r: "0 \<le> i" "i < int (length os)"
    by (simp_all split: option.splits pyval.splits)
  with o c have co: "correct_option (PDict d) = Inr (os ! nat i)"
    by (simp add: correct_option_def seq_index_def)
  then have a: "answered_correctly sel (idx, PDict d) = (sel idx = Some (os ! nat i))"
    by (simp add: answered_correctly_def)
  from grade_question_valid [OF v, of sel idx] show ?thesis
    unfolding a by blast
qed

text \<open>
  C4. Grading compares the selected option with \<^verbatim>\<open>options[correct_answer]\<close> as values:
  for valid questions the score counts the indices whose selected answer equals the
  correct option, a valid question is a hit exactly when the selection equals the text
  at \<^verbatim>\<open>correct_answer\<close>, so a selection with the same text as the correct option is
  a hit wherever that text stands among the options; and for the question \<^verbatim>\<open>2+2?\<close> with
  the answer \<^verbatim>\<open>{0: "4"}\<close> the score is 1 out of 1.
\<close>

theorem grading_compares_option_text_by_value:
  "(list_all valid_question quiz_data \<longrightarrow>
      (\<exists>out. quiz_form_submitted quiz_data sel =
         Inr \<lparr>score_correct =
                int (length (filter (answered_correctly sel) (enumerate 0 quiz_data))),
              score_total = int (length quiz_data), score_shown = out\<rparr>))
   \<and> (valid_question (PDict d) \<and> map_of d ''options'' = Some (PList os)
        \<and> map_of d ''correct_answer'' = Some (PInt i) \<longrightarrow>
      (\<exists>calls. grade_question sel idx (PDict d) = Inr (sel idx = Some (os ! nat i), calls)))
   \<and> (valid_question (PDict d) \<and> map_of d ''options'' = Some (PList os)
        \<and> map_of d ''correct_answer'' = Some (PInt i)
        \<and> j < length os \<and> os ! j = os ! nat i \<and> sel idx = Some (os ! j) \<longrightarrow>
      (\<exists>calls. grade_question sel idx (PDict d) = Inr (True, calls)))
   \<and> quiz_form_submitted [two_plus_two] [0 \<mapsto> PStr ''4''] =
       Inr \<lparr>score_correct = 1, score_total = 1,
            score_shown = [StSuccessCorrect 0, StMarkdownScore 1 1]\<rparr>"
proof (intro conjI impI)
  assume "list_all valid_question quiz_data"
  from quiz_form_submitted_valid [OF this, of sel]
  show "\<exists>out. quiz_form_submitted quiz_data sel =
         Inr \<lparr>score_correct =
                int (length (filter (answered_correctly sel) (enumerate 0 quiz_data))),
              score_total = int (length quiz_data), score_shown = out\<rparr>"
    by blast
next
  assume "valid_question (PDict d) \<and> map_of d ''options'' = Some (PList os)
        \<and> map_of d ''correct_answer'' = Some (PInt i)"
  then show "\<exists>calls. grade_question sel idx (PDict d) = Inr (sel idx = Some (os ! nat i), calls)"
    using grade_question_by_value by blast
next
  assume a: "valid_question (PDict d) \<and> map_of d ''options'' = Some (PList os)
        \<and> map_of d ''correct_answer'' = Some (PInt i)
        \<and> j < length os \<and> os ! j = os ! nat i \<and> sel idx = Some (os ! j)"
  then have "\<exists>calls. grade_question sel idx (PDict d) = Inr (sel idx = Some (os ! nat i), calls)"
    using grade_question_by_value by blast
  with a show "\<exists>calls. grade_question sel idx (PDict d) = Inr (True, calls)"
    by simp
next
  show "quiz_form_submitted [two_plus_two] [0 \<mapsto> PStr ''4''] =
       Inr \<lparr>score_correct = 1, score_total = 1,
            score_shown = [StSuccessCorrect 0, StMarkdownScore 1 1]\<rparr>"
    by (rule two_plus_two_answered)
qed

theorem grading_compares_option_text_by_value_witness:
  "list_all valid_question [four_twice]
   \<and> (\<exists>out. quiz_form_submitted [four_twice] [0 \<mapsto> PStr ''4''] =
         Inr \<lparr>score_correct = 1, score_total = 1, score_shown = out\<rparr>)
   \<and> (\<exists>calls. grade_question [0 \<mapsto> PStr ''4''] 0 four_twice = Inr (True, calls))"
proof -
  let ?d = "[(''question'', PStr ''2+2?''),
            (''options'', PList [PStr ''4'', PStr ''4'', PStr ''5'', PStr ''6'']),
            (''correct_answer'', PInt 0)]"
  let ?os = "[PStr ''4'', PStr ''4'', PStr ''5'', PStr ''6'']"
  let ?sel = "[0 \<mapsto> PStr ''4'']"
  have v: "list_all valid_question [four_twice]" by simp
  have c: "int (length (filter (answered_correctly ?sel) (enumerate 0 [four_twice]))) = 1"
    by (simp add: enumerate_eq_zip answered_correctly_def correct_option_def seq_index_def)
  have h: "valid_question (PDict ?d) \<and> map_of ?d ''options'' = Some (PList ?os)
        \<and> map_of ?d ''correct_answer'' = Some (PInt 0)
        \<and> (1::nat) < length ?os \<and> ?os ! 1 = ?os ! nat 0 \<and> ?sel 0 = Some (?os ! 1)"
    by simp
  from grading_compares_option_text_by_value
         [of "[four_twice]" ?sel ?d ?os 0 0 1]
  show ?thesis using v c h by simp
qed

text \<open>
  C5. For valid questions, an index without an entry in the answers is graded wrong and
  grading still returns: the score counts only the hits among the other questions, the
  call for index \<open>i\<close> is the one for a wrong answer, and with the one question \<^verbatim>\<open>2+2?\<close>
  and no answers the score is 0 out of 1.
\<close>

theorem unanswered_question_counts_as_wrong:
  "(list_all valid_question quiz_data \<and> i < length quiz_data \<and> sel i = None \<longrightarrow>
      (\<exists>sc. quiz_form_submitted quiz_data sel = Inr sc
         \<and> score_correct sc =
             int (length (filter (answered_correctly sel)
                    (filter (\<lambda>iq. fst iq \<noteq> i) (enumerate 0 quiz_data))))
         \<and> score_total sc = int (length quiz_data)
         \<and> StErrorWrong i \<in> set (score_shown sc)
         \<and> StSuccessCorrect i \<notin> set (score_shown sc)))
   \<and> quiz_form_submitted [two_plus_two] Map.empty =
       Inr \<lparr>score_correct = 0, score_total = 1,
            score_shown = [StErrorWrong 0, StMarkdownCorrectAnswer (PStr ''4''),
                           StMarkdownScore 0 1]\<rparr>"
proof (intro conjI impI)
  assume a: "list_all valid_question quiz_data \<and> i < length quiz_data \<and> sel i = None"
  then have v: "list_all valid_question quiz_data" and i: "i < length quiz_data"
    and n: "sel i = None" by simp_all
  let ?ps = "enumerate 0 quiz_data"
  let ?c = "int (length (filter (answered_correctly sel) ?ps))"
  from quiz_form_submitted_valid [OF v, of sel] obtain calls where
    r: "quiz_form_submitted quiz_data sel =
      Inr \<lparr>score_correct = ?c, score_total = int (length quiz_data),
           score_shown = calls @ [StMarkdownScore ?c (int (length quiz_data))]\<rparr>"
    and s: "\<forall>k. StSuccessCorrect k \<in> set calls \<longleftrightarrow>
           (\<exists>q. (k, q) \<in> set ?ps \<and> answered_correctly sel (k, q))"
    and w: "\<forall>k. StErrorWrong k \<in> set calls \<longleftrightarrow>
           (\<exists>q. (k, q) \<in> set ?ps \<and> \<not> answered_correctly sel (k, q))"
    by blast
  have no: "\<not> answered_correctly sel (i, q)" for q
    by (simp add: answered_correctly_def n split: sum.splits)
  have mem: "(i, quiz_data ! i) \<in> set ?ps"
    using i by (simp add: in_set_enumerate_eq)
  have "filter (answered_correctly sel) (filter (\<lambda>iq. fst iq \<noteq> i) ?ps) =
        filter (answered_correctly sel) ?ps"
  proof -
    have "(fst iq \<noteq> i \<and> answered_correctly sel iq) = answered_correctly sel iq" for iq
      using no [of "snd iq"] by (cases iq) auto
    then show ?thesis by (simp add: conj_commute)
  qed
  then have 1: "?c = int (length (filter (answered_correctly sel)
                    (filter (\<lambda>iq. fst iq \<noteq> i) ?ps)))" by simp
  from w mem no have 2: "StErrorWrong i \<in> set calls" by blast
  from s no have 3: "StSuccessCorrect i \<notin> set calls" by blast
  from r 1 2 3 show "\<exists>sc. quiz_form_submitted quiz_data sel = Inr sc
         \<and> score_correct sc =
             int (length (filter (answered_correctly sel)
                    (filter (\<lambda>iq. fst iq \<noteq> i) (enumerate 0 quiz_data))))
         \<and> score_total sc = int (length quiz_data)
         \<and> StErrorWrong i \<in> set (score_shown sc)
         \<and> StSuccessCorrect i \<notin> set (score_shown sc)"
    by simp
next
  show "quiz_form_submitted [two_plus_two] Map.empty =
       Inr \<lparr>score_correct = 0, score_total = 1,
            score_shown = [StErrorWrong 0, StMarkdownCorrectAnswer (PStr ''4''),
                           StMarkdownScore 0 1]\<rparr>"
    by (rule two_plus_two_unanswered)
qed

theorem unanswered_question_counts_as_wrong_witness:
  "list_all valid_question [two_plus_two, four_twice] \<and> (0::nat) < length [two_plus_two, four_twice]
   \<and> [Suc 0 \<mapsto> PStr ''4''] 0 = None
   \<and> (\<exists>sc. quiz_form_submitted [two_plus_two, four_twice] [Suc 0 \<mapsto> PStr ''4''] = Inr sc
         \<and> score_correct sc = 1 \<and> score_total sc = 2
         \<and> StErrorWrong 0 \<in> set (score_shown sc)
         \<and> StSuccessCorrect 0 \<notin> set (score_shown sc))"
proof -
  let ?qs = "[two_plus_two, four_twice]"
  let ?sel = "[Suc 0 \<mapsto> PStr ''4'']"
  have h: "list_all valid_question ?qs \<and> (0::nat) < length ?qs \<and> ?sel 0 = None" by simp
  have c: "int (length (filter (answered_correctly ?sel)
                    (filter (\<lambda>iq. fst iq \<noteq> 0) (enumerate 0 ?qs)))) = 1"
    by (simp add: enumerate_eq_zip answered_correctly_def correct_option_def seq_index_def upt_rec)
  from unanswered_question_counts_as_wrong [of ?qs 0 ?sel] h c
  show ?thesis by simp
qed

text \<open>
  C10. Whenever grading returns, the count of correct answers lies between 0 and the
  total, the total is the number of questions, and the verdicts shown are one for each
  index \<open>0, ..., len - 1\<close>, in this order.
\<close>

theorem score_never_exceeds_question_count:
  assumes "quiz_form_submitted quiz_data selected_answers = Inr sc"
  shows "0 \<le> score_correct sc \<and> score_correct sc \<le> score_total sc
     \<and> score_total sc = int (length quiz_data)
     \<and> List.map_filter verdict_index (score_shown sc) = [0..<length quiz_data]"
proof (cases "grade_loop selected_answers (enumerate 0 quiz_data) 0 []")
  case (Inl e)
  with quiz_form_submitted_returned [OF assms] show ?thesis
    by (simp add: check_score_def Let_def)
next
  case (Inr r)
  obtain cc out where r: "r = (cc, out)" by (cases r)
  from Inr r have l: "grade_loop selected_answers (enumerate 0 quiz_data) 0 [] = Inr (cc, out)"
    by simp
  from grade_loop_bounds [OF l] have lo: "0 \<le> cc" and hi: "cc \<le> int (length quiz_data)"
    and v: "List.map_filter verdict_index out = [0..<length quiz_data]"
    by (simp_all add: List.map_filter_simps)
  from l quiz_form_submitted_returned [OF assms]
  have sc: "sc = \<lparr>score_correct = cc, score_total = int (length quiz_data),
      score_shown = out @ [StMarkdownScore cc (int (length quiz_data))]\<rparr>"
    by (simp add: check_score_def Let_def)
  from v have "List.map_filter verdict_index (score_shown sc) = [0..<length quiz_data]"
    unfolding sc by (simp add: map_filter_app List.map_filter_simps)
  with lo hi show ?thesis unfolding sc by simp
qed

theorem score_never_exceeds_question_count_witness:
  "quiz_form_submitted [two_plus_two] [0 \<mapsto> PStr ''4''] =
     Inr \<lparr>score_correct = 1, score_total = 1,
          score_shown = [StSuccessCorrect 0, StMarkdownScore 1 1]\<rparr>
   \<and> (0::int) \<le> 1 \<and> (1::int) \<le> 1 \<and> (1::int) = int (length [two_plus_two])
   \<and> List.map_filter verdict_index [StSuccessCorrect 0, StMarkdownScore 1 1] = [0..<length [two_plus_two]]"
  using score_never_exceeds_question_count [OF two_plus_two_answered] two_plus_two_answered
  by simp

text \<open>
  A record with a question, four options and \<^verbatim>\<open>correct_answer = 7\<close> is shown and graded
  like any other, and the lookup at lines 43 and 44 raises \<^verbatim>\<open>IndexError\<close>.
\<close>

theorem out_of_range_answer_reaches_grading:
  "quiz_form_submitted
     [PDict [(''question'', PStr ''2+2?''),
             (''options'', PList [PStr ''3'', PStr ''4'', PStr ''5'', PStr ''6'']),
             (''correct_answer'', PInt 7)]] Map.empty = Inl IndexError"
  by (simp add: grade_eval)

lemma check_score_out_of_range:
  assumes "map_of d ''correct_answer'' = Some (PInt i)"
    and "map_of d ''options'' = Some (PList os)"
    and "i < - int (length os) \<or> int (length os) \<le> i"
  shows "check_score (PDict d # rest) selected_answers = Inl IndexError"
proof -
  from assms have "correct_option (PDict d) = Inl IndexError"
    by (auto simp add: correct_option_def seq_index_def)
  then have "grade_question selected_answers 0 (PDict d) = Inl IndexError"
    by (simp add: grade_question_def)
  then show ?thesis
    by (simp add: check_score_def enumerate_simps)
qed

text \<open>
  C2, as the code has it. Nothing validates a record, neither before the form is shown
  nor before grading. For a record with a list of options and an integer
  \<^verbatim>\<open>correct_answer\<close> \<open>i\<close>, the lookup of lines 43 and 44 gives \<^verbatim>\<open>options[i]\<close> for
  \<open>0 \<le> i < len\<close>, counts from the end for \<open>-len \<le> i < 0\<close>, and raises \<^verbatim>\<open>IndexError\<close>
  for any other \<open>i\<close>. When the quiz starts with a record of the last kind and every
  record passes lines 23 to 31 (the question and the options are there and the radio
  returns), the submitted form ends with that \<^verbatim>\<open>IndexError\<close>, whatever the radios
  returned.
\<close>

theorem correct_option_lookup_is_unchecked:
  "(map_of d ''correct_answer'' = Some (PInt i) \<and> map_of d ''options'' = Some (PList os) \<longrightarrow>
      correct_option (PDict d) =
        (if 0 \<le> i \<and> i < int (length os) then Inr (os ! nat i)
         else if - int (length os) \<le> i \<and> i < 0 then Inr (os ! nat (int (length os) + i))
         else Inl IndexError))
   \<and> (map_of d ''correct_answer'' = Some (PInt i) \<and> map_of d ''options'' = Some (PList os)
        \<and> (i < - int (length os) \<or> int (length os) \<le> i)
        \<and> render_loop radio (enumerate 0 (PDict d # rest)) Map.empty [StWriteIntro] =
            Inr (selected_answers, shown) \<longrightarrow>
      display_interactive_quiz_with_form radio True (PDict d # rest) = Inl IndexError)"
proof (intro conjI impI)
  assume "map_of d ''correct_answer'' = Some (PInt i) \<and> map_of d ''options'' = Some (PList os)"
  then show "correct_option (PDict d) =
        (if 0 \<le> i \<and> i < int (length os) then Inr (os ! nat i)
         else if - int (length os) \<le> i \<and> i < 0 then Inr (os ! nat (int (length os) + i))
         else Inl IndexError)"
    by (simp add: correct_option_def seq_index_def)
next
  assume a: "map_of d ''correct_answer'' = Some (PInt i) \<and> map_of d ''options'' = Some (PList os)
        \<and> (i < - int (length os) \<or> int (length os) \<le> i)
        \<and> render_loop radio (enumerate 0 (PDict d # rest)) Map.empty [StWriteIntro] =
            Inr (selected_answers, shown)"
  then have 1: "map_of d ''correct_answer'' = Some (PInt i)"
    and 2: "map_of d ''options'' = Some (PList os)"
    and 3: "i < - int (length os) \<or> int (length os) \<le> i"
    and 4: "render_loop radio (enumerate 0 (PDict d # rest)) Map.empty [StWriteIntro] =
            Inr (selected_answers, shown)"
    by blast+
  have 5: "check_score (PDict d # rest) selected_answers = Inl IndexError"
    by (rule check_score_out_of_range [OF 1 2 3])
  show "display_interactive_quiz_with_form radio True (PDict d # rest) = Inl IndexError"
    unfolding display_interactive_quiz_with_form_def 4 by (simp add: 5)
qed

theorem correct_option_lookup_is_unchecked_witness:
  "correct_option (PDict [(''question'', PStr ''first?''),
       (''options'', PList [PStr ''a'', PStr ''b'']), (''correct_answer'', PInt (- 1))])
     = Inr (PStr ''b'')
   \<and> correct_option (PDict [(''question'', PStr ''first?''),
       (''options'', PList [PStr ''a'', PStr ''b'']), (''correct_answer'', PInt 2)])
     = Inl IndexError
   \<and> render_loop (radio_of [0 \<mapsto> PStr ''a''])
       (enumerate 0 [PDict [(''question'', PStr ''first?''),
          (''options'', PList [PStr ''a'', PStr ''b'']), (''correct_answer'', PInt 2)],
          two_plus_two]) Map.empty [StWriteIntro] =
       Inr ([0 \<mapsto> PStr ''a'', Suc 0 \<mapsto> PNone],
            [StWriteIntro,
             StSubheader 0 (PStr ''first?''), StRadio 0 (PList [PStr ''a'', PStr ''b'']),
             StSubheader (Suc 0) (PStr ''2+2?''),
             StRadio (Suc 0) (PList [PStr ''3'', PStr ''4'', PStr ''5'', PStr ''6''])])
   \<and> display_interactive_quiz_with_form (radio_of [0 \<mapsto> PStr ''a'']) True
       [PDict [(''question'', PStr ''first?''),
          (''options'', PList [PStr ''a'', PStr ''b'']), (''correct_answer'', PInt 2)],
        two_plus_two] = Inl IndexError"
proof -
  let ?d1 = "[(''question'', PStr ''first?''),
       (''options'', PList [PStr ''a'', PStr ''b'']), (''correct_answer'', PInt (- 1))]"
  let ?d2 = "[(''question'', PStr ''first?''),
       (''options'', PList [PStr ''a'', PStr ''b'']), (''correct_answer'', PInt 2)]"
  let ?radio = "radio_of [0 \<mapsto> PStr ''a'']"
  let ?shown = "[StWriteIntro,
             StSubheader 0 (PStr ''first?''), StRadio 0 (PList [PStr ''a'', PStr ''b'']),
             StSubheader (Suc 0) (PStr ''2+2?''),
             StRadio (Suc 0) (PList [PStr ''3'', PStr ''4'', PStr ''5'', PStr ''6''])]"
  have r: "render_loop ?radio (enumerate 0 [PDict ?d2, two_plus_two]) Map.empty [StWriteIntro] =
       Inr ([0 \<mapsto> PStr ''a'', Suc 0 \<mapsto> PNone], ?shown)"
    by (simp add: enumerate_eq_zip radio_of_def)
  from correct_option_lookup_is_unchecked [of ?d1 "- 1" "[PStr ''a'', PStr ''b'']"]
  have 1: "correct_option (PDict ?d1) = Inr (PStr ''b'')" by simp
  from correct_option_lookup_is_unchecked
      [of ?d2 2 "[PStr ''a'', PStr ''b'']" ?radio "[two_plus_two]"
          "[0 \<mapsto> PStr ''a'', Suc 0 \<mapsto> PNone]" ?shown] r
  have 2: "correct_option (PDict ?d2) = Inl IndexError"
    and 3: "display_interactive_quiz_with_form ?radio True [PDict ?d2, two_plus_two] = Inl IndexError"
    by simp_all
  from 1 2 r 3 show ?thesis by blast
qed

section \<open>Properties of the summary rendering\<close>

text \<open>
  A summary without \<^verbatim>\<open>key_skills\<close> is not rendered with an empty list of skills:
  line 181 raises \<^verbatim>\<open>KeyError\<close>.
\<close>

theorem missing_key_skills_raises:
  "display_enhanced_summary
     (PDict [(''summary'', PStr ''...''), (''estimated_time'', PInt 30)]) =
   Inl (KeyError (PStr ''key_skills''))"
  by (simp add: display_enhanced_summary_def)

text \<open>
  C6, as the code has it. None of \<^verbatim>\<open>summary\<close>, \<^verbatim>\<open>key_skills\<close> and
  \<^verbatim>\<open>estimated_time\<close> has a default: a record without \<^verbatim>\<open>summary\<close> raises
  \<^verbatim>\<open>KeyError('summary')\<close>, one with \<^verbatim>\<open>summary\<close> and without \<^verbatim>\<open>key_skills\<close> raises
  \<^verbatim>\<open>KeyError('key_skills')\<close>, one without \<^verbatim>\<open>estimated_time\<close> ends with an exception,
  which is \<^verbatim>\<open>KeyError('estimated_time')\<close> when the lines before it succeed.
\<close>

theorem display_enhanced_summary_missing_keys:
  "(map_of d ''summary'' = None \<longrightarrow>
      display_enhanced_summary (PDict d) = Inl (KeyError (PStr ''summary'')))
   \<and> (map_of d ''summary'' = Some s \<and> map_of d ''key_skills'' = None \<longrightarrow>
      display_enhanced_summary (PDict d) = Inl (KeyError (PStr ''key_skills'')))
   \<and> (map_of d ''estimated_time'' = None \<longrightarrow>
      (\<exists>e. display_enhanced_summary (PDict d) = Inl e))
   \<and> (map_of d ''summary'' = Some s \<and> map_of d ''key_skills'' = Some ks
        \<and> py_iter ks = Inr skills \<and> difficulty_of (PDict d) = Inr difficulty
        \<and> map_of d ''estimated_time'' = None \<longrightarrow>
      display_enhanced_summary (PDict d) = Inl (KeyError (PStr ''estimated_time'')))"
proof (intro conjI impI)
  assume "map_of d ''summary'' = None"
  then show "display_enhanced_summary (PDict d) = Inl (KeyError (PStr ''summary''))"
    by (simp add: display_enhanced_summary_def)
next
  assume "map_of d ''summary'' = Some s \<and> map_of d ''key_skills'' = None"
  then show "display_enhanced_summary (PDict d) = Inl (KeyError (PStr ''key_skills''))"
    by (simp add: display_enhanced_summary_def)
next
  assume "map_of d ''estimated_time'' = None"
  then have "py_getitem (PDict d) (PStr ''estimated_time'') = Inl (KeyError (PStr ''estimated_time''))"
    by simp
  then show "\<exists>e. display_enhanced_summary (PDict d) = Inl e"
    unfolding display_enhanced_summary_def by (simp split: sum.splits)
next
  assume "map_of d ''summary'' = Some s \<and> map_of d ''key_skills'' = Some ks
        \<and> py_iter ks = Inr skills \<and> difficulty_of (PDict d) = Inr difficulty
        \<and> map_of d ''estimated_time'' = None"
  then show "display_enhanced_summary (PDict d) = Inl (KeyError (PStr ''estimated_time''))"
    by (simp add: display_enhanced_summary_def)
qed

theorem display_enhanced_summary_missing_keys_witness:
  "display_enhanced_summary (PDict [(''key_skills'', PList []), (''estimated_time'', PInt 30)])
     = Inl (KeyError (PStr ''summary''))
   \<and> display_enhanced_summary (PDict [(''summary'', PStr ''...''), (''estimated_time'', PInt 30)])
     = Inl (KeyError (PStr ''key_skills''))
   \<and> (\<exists>e. display_enhanced_summary (PDict [(''summary'', PStr ''...'')]) = Inl e)
   \<and> display_enhanced_summary (PDict [(''summary'', PStr ''...''), (''key_skills'', PList [])])
     = Inl (KeyError (PStr ''estimated_time''))"
proof -
  have dif: "difficulty_of (PDict [(''summary'', PStr ''...''), (''key_skills'', PList [])])
      = Inr ''medium''"
    by code_simp
  from display_enhanced_summary_missing_keys
      [of "[(''key_skills'', PList []), (''estimated_time'', PInt 30)]"]
  have 1: "display_enhanced_summary (PDict [(''key_skills'', PList []), (''estimated_time'', PInt 30)])
     = Inl (KeyError (PStr ''summary''))" by simp
  from display_enhanced_summary_missing_keys
      [of "[(''summary'', PStr ''...''), (''estimated_time'', PInt 30)]" "PStr ''...''"]
  have 2: "display_enhanced_summary (PDict [(''summary'', PStr ''...''), (''estimated_time'', PInt 30)])
     = Inl (KeyError (PStr ''key_skills''))" by simp
  from display_enhanced_summary_missing_keys [of "[(''summary'', PStr ''...'')]"]
  have 3: "\<exists>e. display_enhanced_summary (PDict [(''summary'', PStr ''...'')]) = Inl e" by simp
  from display_enhanced_summary_missing_keys
      [of "[(''summary'', PStr ''...''), (''key_skills'', PList [])]" "PStr ''...''" "PList []"
          "[]" "''medium''"] dif
  have 4: "display_enhanced_summary (PDict [(''summary'', PStr ''...''), (''key_skills'', PList [])])
     = Inl (KeyError (PStr ''estimated_time''))" by simp
  from 1 2 3 4 show ?thesis by blast
qed

lemma lower_Medium: "py_lower (PStr ''Medium'') = Inr ''medium''"
  by code_simp

lemma display_enhanced_summary_returned:
  assumes "display_enhanced_summary summary_data = Inr calls"
  shows "\<exists>x summary skills t. difficulty_of summary_data = Inr x
     \<and> calls = [StMarkdownStyles, StMarkdownSummary summary, StMarkdownKeySkills skills,
                 StMarkdownDifficulty (x = ''easy'') (x = ''medium'') (x = ''hard''),
                 StMarkdownEstimatedTime t]"
proof (cases "difficulty_of summary_data")
  case (Inl e)
  with assms show ?thesis
    by (simp add: display_enhanced_summary_def split: sum.splits)
next
  case (Inr x)
  with assms show ?thesis
    by (auto simp add: display_enhanced_summary_def split: sum.splits)
qed

text \<open>
  C7. Without the key \<^verbatim>\<open>difficulty\<close> the value used is \<^verbatim>\<open>'Medium'\<close>, lowercased like any
  other: the record renders as the same record with \<^verbatim>\<open>difficulty = 'Medium'\<close> added,
  and of the three levels shown exactly Medium is highlighted. A difficulty given as
  text is lowercased before it is compared: whenever a record is rendered, the level
  highlighted is the one whose lowercase name equals the lowercased difficulty, so two
  texts that differ only in case render alike.
\<close>

theorem missing_difficulty_is_medium:
  "(map_of d ''difficulty'' = None \<longrightarrow>
      difficulty_of (PDict d) = py_lower (PStr ''Medium'')
      \<and> difficulty_of (PDict d) = Inr ''medium''
      \<and> display_enhanced_summary (PDict d) =
          display_enhanced_summary (PDict (d @ [(''difficulty'', PStr ''Medium'')])))
   \<and> (map_of d ''difficulty'' = Some (PStr s) \<longrightarrow>
      difficulty_of (PDict d) = Inr (map lower_char s))
   \<and> (map lower_char s = map lower_char s' \<longrightarrow>
      display_enhanced_summary (PDict (AList.update ''difficulty'' (PStr s) d)) =
      display_enhanced_summary (PDict (AList.update ''difficulty'' (PStr s') d)))
   \<and> (display_enhanced_summary (PDict d) = Inr calls \<longrightarrow>
      (\<exists>x summary skills t. difficulty_of (PDict d) = Inr x
         \<and> calls = [StMarkdownStyles, StMarkdownSummary summary, StMarkdownKeySkills skills,
                     StMarkdownDifficulty (x = ''easy'') (x = ''medium'') (x = ''hard''),
                     StMarkdownEstimatedTime t]))
   \<and> (map_of d ''difficulty'' = None \<and> display_enhanced_summary (PDict d) = Inr calls \<longrightarrow>
      StMarkdownDifficulty False True False \<in> set calls)
   \<and> (map_of d ''difficulty'' = Some (PStr s)
        \<and> display_enhanced_summary (PDict d) = Inr calls \<longrightarrow>
      StMarkdownDifficulty (map lower_char s = ''easy'') (map lower_char s = ''medium'')
        (map lower_char s = ''hard'') \<in> set calls)"
proof (intro conjI impI)
  assume n: "map_of d ''difficulty'' = None"
  then show "difficulty_of (PDict d) = py_lower (PStr ''Medium'')"
    by (simp add: difficulty_of_def dict_get_def)
  from n have "difficulty_of (PDict d) = py_lower (PStr ''Medium'')"
    by (simp add: difficulty_of_def dict_get_def)
  then show "difficulty_of (PDict d) = Inr ''medium''"
    by (simp only: lower_Medium)
  let ?d' = "d @ [(''difficulty'', PStr ''Medium'')]"
  have 1: "py_getitem (PDict ?d') (PStr ''summary'') = py_getitem (PDict d) (PStr ''summary'')"
    by (simp add: map_add_def split: option.splits)
  have 2: "py_getitem (PDict ?d') (PStr ''key_skills'') = py_getitem (PDict d) (PStr ''key_skills'')"
    by (simp add: map_add_def split: option.splits)
  have 3: "py_getitem (PDict ?d') (PStr ''estimated_time'') =
           py_getitem (PDict d) (PStr ''estimated_time'')"
    by (simp add: map_add_def split: option.splits)
  have 4: "difficulty_of (PDict ?d') = difficulty_of (PDict d)"
    using n by (simp add: difficulty_of_def dict_get_def map_add_def)
  show "display_enhanced_summary (PDict d) = display_enhanced_summary (PDict ?d')"
    unfolding display_enhanced_summary_def 1 2 3 4 ..
next
  assume "map_of d ''difficulty'' = Some (PStr s)"
  then show "difficulty_of (PDict d) = Inr (map lower_char s)"
    by (simp add: difficulty_of_def dict_get_def)
next
  assume e: "map lower_char s = map lower_char s'"
  let ?a = "AList.update ''difficulty'' (PStr s) d"
  let ?b = "AList.update ''difficulty'' (PStr s') d"
  have 1: "py_getitem (PDict ?a) (PStr ''summary'') = py_getitem (PDict ?b) (PStr ''summary'')"
    by (simp add: AList.update_conv')
  have 2: "py_getitem (PDict ?a) (PStr ''key_skills'') = py_getitem (PDict ?b) (PStr ''key_skills'')"
    by (simp add: AList.update_conv')
  have 3: "py_getitem (PDict ?a) (PStr ''estimated_time'') =
           py_getitem (PDict ?b) (PStr ''estimated_time'')"
    by (simp add: AList.update_conv')
  have 4: "difficulty_of (PDict ?a) = difficulty_of (PDict ?b)"
    using e by (simp add: difficulty_of_def dict_get_def AList.update_conv')
  show "display_enhanced_summary (PDict ?a) = display_enhanced_summary (PDict ?b)"
    unfolding display_enhanced_summary_def 1 2 3 4 ..
next
  assume "display_enhanced_summary (PDict d) = Inr calls"
  then show "\<exists>x summary skills t. difficulty_of (PDict d) = Inr x
         \<and> calls = [StMarkdownStyles, StMarkdownSummary summary, StMarkdownKeySkills skills,
                     StMarkdownDifficulty (x = ''easy'') (x = ''medium'') (x = ''hard''),
                     StMarkdownEstimatedTime t]"
    by (rule display_enhanced_summary_returned)
next
  assume a: "map_of d ''difficulty'' = None \<and> display_enhanced_summary (PDict d) = Inr calls"
  then have "difficulty_of (PDict d) = py_lower (PStr ''Medium'')"
    by (simp add: difficulty_of_def dict_get_def)
  then have m: "difficulty_of (PDict d) = Inr ''medium''"
    by (simp only: lower_Medium)
  from a have "display_enhanced_summary (PDict d) = Inr calls" by blast
  from display_enhanced_summary_returned [OF this] m
  show "StMarkdownDifficulty False True False \<in> set calls"
    by auto
next
  assume a: "map_of d ''difficulty'' = Some (PStr s)
        \<and> display_enhanced_summary (PDict d) = Inr calls"
  then have m: "difficulty_of (PDict d) = Inr (map lower_char s)"
    by (simp add: difficulty_of_def dict_get_def)
  from a have "display_enhanced_summary (PDict d) = Inr calls" by blast
  from display_enhanced_summary_returned [OF this] m
  show "StMarkdownDifficulty (map lower_char s = ''easy'') (map lower_char s = ''medium'')
        (map lower_char s = ''hard'') \<in> set calls"
    by auto
qed

theorem missing_difficulty_is_medium_witness:
  "display_enhanced_summary
     (PDict [(''summary'', PStr ''...''), (''key_skills'', PList [PStr ''a'', PStr ''b'']),
             (''estimated_time'', PInt 30)]) =
   Inr [StMarkdownStyles, StMarkdownSummary (PStr ''...''),
        StMarkdownKeySkills [PStr ''a'', PStr ''b''],
        StMarkdownDifficulty False True False, StMarkdownEstimatedTime (PInt 30)]
   \<and> difficulty_of (PDict [(''difficulty'', PStr ''HARD'')]) = Inr ''hard''
   \<and> display_enhanced_summary
       (PDict [(''summary'', PStr ''...''), (''key_skills'', PList []),
               (''difficulty'', PStr ''HARD''), (''estimated_time'', PInt 30)]) =
     display_enhanced_summary
       (PDict [(''summary'', PStr ''...''), (''key_skills'', PList []),
               (''difficulty'', PStr ''hard''), (''estimated_time'', PInt 30)])
   \<and> display_enhanced_summary
       (PDict [(''summary'', PStr ''...''), (''key_skills'', PList []),
               (''difficulty'', PStr ''HARD''), (''estimated_time'', PInt 30)]) =
     Inr [StMarkdownStyles, StMarkdownSummary (PStr ''...''), StMarkdownKeySkills [],
          StMarkdownDifficulty False False True, StMarkdownEstimatedTime (PInt 30)]
   \<and> StMarkdownDifficulty False False True \<in>
       set [StMarkdownStyles, StMarkdownSummary (PStr ''...''), StMarkdownKeySkills [],
            StMarkdownDifficulty False False True, StMarkdownEstimatedTime (PInt 30)]
   \<and> StMarkdownDifficulty False True False \<in>
       set [StMarkdownStyles, StMarkdownSummary (PStr ''...''),
            StMarkdownKeySkills [PStr ''a'', PStr ''b''],
            StMarkdownDifficulty False True False, StMarkdownEstimatedTime (PInt 30)]"
proof -
  let ?d = "[(''summary'', PStr ''...''), (''key_skills'', PList [PStr ''a'', PStr ''b'']),
             (''estimated_time'', PInt 30)]"
  let ?e = "[(''summary'', PStr ''...''), (''key_skills'', PList []),
               (''difficulty'', PStr ''Hard''), (''estimated_time'', PInt 30)]"
  let ?h = "[(''summary'', PStr ''...''), (''key_skills'', PList []),
               (''difficulty'', PStr ''HARD''), (''estimated_time'', PInt 30)]"
  let ?cd = "[StMarkdownStyles, StMarkdownSummary (PStr ''...''),
        StMarkdownKeySkills [PStr ''a'', PStr ''b''],
        StMarkdownDifficulty False True False, StMarkdownEstimatedTime (PInt 30)]"
  let ?ch = "[StMarkdownStyles, StMarkdownSummary (PStr ''...''), StMarkdownKeySkills [],
          StMarkdownDifficulty False False True, StMarkdownEstimatedTime (PInt 30)]"
  have w: "display_enhanced_summary (PDict (?d @ [(''difficulty'', PStr ''Medium'')])) = Inr ?cd"
    by code_simp
  have wh: "display_enhanced_summary (PDict ?h) = Inr ?ch"
    by code_simp
  have l1: "map lower_char ''HARD'' = map lower_char ''hard''" by code_simp
  have l2: "map lower_char ''HARD'' = ''hard''" by code_simp
  note l = l1 l2
  from missing_difficulty_is_medium [of ?d] w
  have 1: "display_enhanced_summary (PDict ?d) = Inr ?cd"
    by simp
  from missing_difficulty_is_medium [of "[(''difficulty'', PStr ''HARD'')]" "''HARD''"] l
  have 2: "difficulty_of (PDict [(''difficulty'', PStr ''HARD'')]) = Inr ''hard''" by simp
  from missing_difficulty_is_medium [of ?e "''HARD''" "''hard''"] l
  have 3: "display_enhanced_summary (PDict ?h) =
     display_enhanced_summary
       (PDict [(''summary'', PStr ''...''), (''key_skills'', PList []),
               (''difficulty'', PStr ''hard''), (''estimated_time'', PInt 30)])"
    by (simp add: AList.update_def)
  from missing_difficulty_is_medium [of ?h "''HARD''" "''hard''" ?ch] wh l2
  have 4: "StMarkdownDifficulty False False True \<in> set ?ch" by simp
  from missing_difficulty_is_medium [of ?d "''HARD''" "''hard''" ?cd] 1
  have 5: "StMarkdownDifficulty False True False \<in> set ?cd" by simp
  from 1 2 3 wh 4 5 show ?thesis by blast
qed

end
